theory Spec2Isabelle
  imports Main "HOL-Library.Sublist"
begin

section \<open>Data model of \<open>src/App.js\<close>\<close>

text \<open>
  A story is one record of the search API's \<open>hits\<close> array. The reducer reads only its
  \<open>objectID\<close>; the other fields are the ones the \<open>Item\<close> component renders.
\<close>

record story =
  objectID :: string
  title :: string
  url :: string
  author :: string
  num_comments :: int
  points :: int

text \<open>
  JavaScript is untyped: \<open>action.payload\<close> and \<open>state.data\<close> hold whatever was put there.
  The values that the program's own dispatches produce are an array of stories
  (\<open>result.data.hits\<close>), one story object (the dismissed item) and \<open>undefined\<close>
  (an action object written without a \<open>payload\<close> property).
\<close>

datatype js_value = Undefined | Array "story list" | Object story

text \<open>
  What the program can throw. The reducer throws in two ways: its own
  \<open>throw new Error()\<close>, and the \<open>TypeError\<close> the runtime raises on a property read of
  \<open>undefined\<close> or on calling a method that the receiver does not have. A write to the
  browser storage throws \<open>QuotaExceededError\<close> when the browser refuses it.
\<close>

datatype error = Error | TypeError | QuotaExceededError

record state =
  data :: js_value
  isLoading :: bool
  isError :: bool

record action =
  type :: string
  payload :: js_value

section \<open>The reducer\<close>

text \<open>
  \<open>action.payload.objectID\<close>: a property read. On \<open>undefined\<close> it throws; an array has no
  property of that name, so the read gives \<open>undefined\<close>, written \<open>None\<close> here.
\<close>

fun get_objectID :: "js_value \<Rightarrow> error + string option" where
  "get_objectID Undefined = Inl TypeError"
| "get_objectID (Array xs) = Inr None"
| "get_objectID (Object s) = Inr (Some (objectID s))"

text \<open>
  \<open>xs.filter((story) => action.payload.objectID !== story.objectID)\<close>, element by element
  from the left. The callback reads \<open>action.payload.objectID\<close> at every element, so a
  throwing read aborts the whole call, and an empty array never performs the read.
  \<open>!==\<close> between \<open>undefined\<close> and a string is true.
\<close>

fun filter_stories :: "js_value \<Rightarrow> story list \<Rightarrow> error + story list" where
  "filter_stories p [] = Inr []"
| "filter_stories p (s # xs) =
     (case get_objectID p of
        Inl e \<Rightarrow> Inl e
      | Inr i \<Rightarrow>
          (case filter_stories p xs of
             Inl e \<Rightarrow> Inl e
           | Inr ys \<Rightarrow> Inr (if i \<noteq> Some (objectID s) then s # ys else ys)))"

text \<open>
  \<open>state.data.filter(...)\<close>: only an array has the method; on \<open>undefined\<close> the property
  read throws, on a story object the call of the missing method throws.
\<close>

fun data_filter :: "js_value \<Rightarrow> js_value \<Rightarrow> error + js_value" where
  "data_filter Undefined p = Inl TypeError"
| "data_filter (Object s) p = Inl TypeError"
| "data_filter (Array xs) p =
     (case filter_stories p xs of Inl e \<Rightarrow> Inl e | Inr ys \<Rightarrow> Inr (Array ys))"

text \<open>
  \<open>storiesReducer\<close>, case by case in the source's order. The spread \<open>...state\<close> copies
  every property of the old state, which the record update does too (the extension
  field \<open>more\<close> included).
\<close>

definition storiesReducer ::
  "'a state_scheme \<Rightarrow> action \<Rightarrow> error + 'a state_scheme" where
  "storiesReducer state action =
     (if type action = ''STORIES_FETCH_INIT'' then
        Inr (state\<lparr>isLoading := True, isError := False\<rparr>)
      else if type action = ''STORIES_FETCH_SUCCESS'' then
        Inr (state\<lparr>isLoading := False, isError := False, data := payload action\<rparr>)
      else if type action = ''STORIES_FETCH_FAILURE'' then
        Inr (state\<lparr>isLoading := False, isError := True\<rparr>)
      else if type action = ''REMOVE_STORY'' then
        (case data_filter (data state) (payload action) of
           Inl e \<Rightarrow> Inl e
         | Inr d \<Rightarrow> Inr (state\<lparr>data := d\<rparr>))
      else Inl Error)"

section \<open>The persistent value holder\<close>

text \<open>
  The browser's \<open>localStorage\<close>: string keys, string values. \<open>getItem\<close> returns \<open>null\<close>
  (here \<open>None\<close>) for a key that was never set.
\<close>

type_synonym local_storage = "string \<rightharpoonup> string"

definition getItem :: "local_storage \<Rightarrow> string \<Rightarrow> string option" where
  "getItem ls key = ls key"

text \<open>
  \<open>localStorage.setItem(key, value)\<close> stores the value, or throws \<open>QuotaExceededError\<close>
  and leaves the storage as it was when the browser does not take the new contents (the
  storage is full, or the browser grants none at all). Which contents a browser takes is
  its own policy; it is the parameter \<open>q\<close>, asked about the contents that the write would
  produce.
\<close>

definition setItem ::
  "(local_storage \<Rightarrow> bool) \<Rightarrow> string \<Rightarrow> string \<Rightarrow> local_storage \<Rightarrow> error + local_storage" where
  "setItem q key v ls = (if q (ls(key \<mapsto> v)) then Inr (ls(key \<mapsto> v)) else Inl QuotaExceededError)"

text \<open>
  \<open>a || b\<close> for a left operand that is \<open>null\<close> or a string: the right operand when the
  left one is falsy (\<open>null\<close> and the empty string are), the left one otherwise.
\<close>

definition js_or :: "string option \<Rightarrow> string \<Rightarrow> string" where
  "js_or a b = (case a of None \<Rightarrow> b | Some v \<Rightarrow> if v = [] then b else v)"

text \<open>
  \<open>useSemiPersistentState\<close> in its two parts: the initial value handed to
  \<open>React.useState\<close>, \<open>localStorage.getItem(key) || initialValue\<close>, and the effect
  \<open>() => localStorage.setItem(key, value)\<close> that React runs after the first render and
  after every render in which \<open>value\<close> or \<open>key\<close> has changed. The effect calls \<open>setItem\<close>
  unguarded, so what \<open>setItem\<close> throws, the effect throws.
\<close>

definition useSemiPersistentState_initial ::
  "local_storage \<Rightarrow> string \<Rightarrow> string \<Rightarrow> string" where
  "useSemiPersistentState_initial ls key initialValue = js_or (getItem ls key) initialValue"

definition useSemiPersistentState_effect ::
  "(local_storage \<Rightarrow> bool) \<Rightarrow> string \<Rightarrow> string \<Rightarrow> local_storage \<Rightarrow> error + local_storage" where
  "useSemiPersistentState_effect q key v ls = setItem q key v ls"

section \<open>The \<open>App\<close> component\<close>

definition API_ENDPOINT :: string where
  "API_ENDPOINT = ''https://hn.algolia.com/api/v1/search?query=''"

text \<open>
  The state of a loaded page: the three hook states of \<open>App\<close> (\<open>searchTerm\<close>, \<open>url\<close>,
  \<open>stories\<close>), the browser storage they write to with the browser's policy for it, and
  the number of \<open>axios.get\<close> calls that have not been answered yet.
\<close>

record app =
  localStorage :: local_storage
  quota :: "local_storage \<Rightarrow> bool"
  searchTerm :: string
  url :: string
  stories :: state
  pending :: nat

text \<open>Sequencing of steps that may throw: the first error ends the computation.\<close>

definition then_do :: "error + 'a \<Rightarrow> ('a \<Rightarrow> error + 'b) \<Rightarrow> error + 'b" where
  "then_do r f = (case r of Inl err \<Rightarrow> Inl err | Inr x \<Rightarrow> f x)"

definition dispatchStories :: "app \<Rightarrow> action \<Rightarrow> error + app" where
  "dispatchStories w a =
     (case storiesReducer (stories w) a of
        Inl e \<Rightarrow> Inl e
      | Inr s \<Rightarrow> Inr (w\<lparr>stories := s\<rparr>))"

text \<open>
  \<open>handleFetchStories\<close>: dispatch \<open>{ type: "STORIES_FETCH_INIT" }\<close> (an action without a
  payload property) and issue the GET, whose answer arrives later as an event.
\<close>

definition handleFetchStories :: "app \<Rightarrow> error + app" where
  "handleFetchStories w =
     (case dispatchStories w \<lparr>type = ''STORIES_FETCH_INIT'', payload = Undefined\<rparr> of
        Inl e \<Rightarrow> Inl e
      | Inr w' \<Rightarrow> Inr (w'\<lparr>pending := Suc (pending w')\<rparr>))"

text \<open>
  The search term a page starts with: \<open>useSemiPersistentState("search", "React")\<close>.
\<close>

definition initial_term :: "local_storage \<Rightarrow> string" where
  "initial_term ls = useSemiPersistentState_initial ls ''search'' ''React''"

text \<open>
  A fresh load of the page over the storage \<open>ls\<close> in a browser with the policy \<open>q\<close>: the
  first render takes the hooks' initial values, then the effects run in the order they
  are declared, the write to the storage first and the first fetch second. An effect that
  throws takes the whole page down (React unmounts a tree without an error boundary), so
  a failed write leaves no page.
\<close>

definition mount :: "(local_storage \<Rightarrow> bool) \<Rightarrow> local_storage \<Rightarrow> error + app" where
  "mount q ls =
     (let initial = initial_term ls
      in case useSemiPersistentState_effect q ''search'' initial ls of
           Inl e \<Rightarrow> Inl e
         | Inr ls' \<Rightarrow>
             handleFetchStories
               \<lparr>localStorage = ls',
                quota = q,
                searchTerm = initial,
                url = API_ENDPOINT @ initial,
                stories = \<lparr>data = Array [], isLoading = False, isError = False\<rparr>,
                pending = 0\<rparr>)"

text \<open>
  \<open>handleSearchInput\<close> calls \<open>setSearchTerm(event.target.value)\<close>. React renders again
  only when the value differs from the current one, and the hook's effect runs after that
  render because \<open>value\<close> has changed. When the write throws, the page is gone and the
  storage keeps the old value.
\<close>

definition handleSearchInput :: "app \<Rightarrow> string \<Rightarrow> error + app" where
  "handleSearchInput w v =
     (if v = searchTerm w then Inr w
      else case useSemiPersistentState_effect (quota w) ''search'' v (localStorage w) of
             Inl e \<Rightarrow> Inl e
           | Inr ls' \<Rightarrow> Inr (w\<lparr>searchTerm := v, localStorage := ls'\<rparr>))"

text \<open>
  \<open>handleSearchSubmit\<close> calls \<open>setUrl(`${API_ENDPOINT}${searchTerm}`)\<close>. A changed \<open>url\<close>
  gives a new \<open>handleFetchStories\<close> callback, so the fetch effect runs again; an unchanged
  one does not render again.
\<close>

definition handleSearchSubmit :: "app \<Rightarrow> error + app" where
  "handleSearchSubmit w =
     (let u = API_ENDPOINT @ searchTerm w
      in if u = url w then Inr w else handleFetchStories (w\<lparr>url := u\<rparr>))"

definition handleRemoveStory :: "app \<Rightarrow> story \<Rightarrow> error + app" where
  "handleRemoveStory w item =
     dispatchStories w \<lparr>type = ''REMOVE_STORY'', payload = Object item\<rparr>"

text \<open>
  The rows on the screen, each with its Dismiss button: \<open>List\<close> is rendered only while
  \<open>stories.isLoading\<close> is false.
\<close>

definition rendered_list :: "app \<Rightarrow> story list" where
  "rendered_list w =
     (if isLoading (stories w) then []
      else (case data (stories w) of Array xs \<Rightarrow> xs | _ \<Rightarrow> []))"

text \<open>
  What can happen to a loaded page: the user types into the input field, submits the form
  (the button is disabled while the term is empty), dismisses a row that is on the screen,
  or one of the pending requests is answered, with the \<open>hits\<close> array of the response or
  with a rejection.
\<close>

datatype event = Input string | Submit | Dismiss story | Resolved "story list" | Rejected

fun step :: "app \<Rightarrow> event \<Rightarrow> error + app" where
  "step w (Input v) = handleSearchInput w v"
| "step w Submit = (if searchTerm w = [] then Inr w else handleSearchSubmit w)"
| "step w (Dismiss item) =
     (if item \<in> set (rendered_list w) then handleRemoveStory w item else Inr w)"
| "step w (Resolved hits) =
     (if pending w = 0 then Inr w
      else dispatchStories (w\<lparr>pending := pending w - 1\<rparr>)
             \<lparr>type = ''STORIES_FETCH_SUCCESS'', payload = Array hits\<rparr>)"
| "step w Rejected =
     (if pending w = 0 then Inr w
      else dispatchStories (w\<lparr>pending := pending w - 1\<rparr>)
             \<lparr>type = ''STORIES_FETCH_FAILURE'', payload = Undefined\<rparr>)"

fun run :: "app \<Rightarrow> event list \<Rightarrow> error + app" where
  "run w [] = Inr w"
| "run w (e # es) = (case step w e of Inl err \<Rightarrow> Inl err | Inr w' \<Rightarrow> run w' es)"

text \<open>
  A session: a fresh load over the storage \<open>ls\<close> in a browser with the policy \<open>q\<close>, then
  the events in order.
\<close>

definition session :: "(local_storage \<Rightarrow> bool) \<Rightarrow> local_storage \<Rightarrow> event list \<Rightarrow> error + app" where
  "session q ls es = then_do (mount q ls) (\<lambda>w. run w es)"

text \<open>
  Reloading the page in the same browser: the component state is gone, the storage is
  what the old page left behind.
\<close>

definition fresh_load :: "app \<Rightarrow> error + app" where
  "fresh_load w = mount (quota w) (localStorage w)"

definition persisted_term :: "app \<Rightarrow> string option" where
  "persisted_term w = getItem (localStorage w) ''search''"

section \<open>Notions of the specification\<close>

text \<open>
  The specification tells the typed search term, which every input event changes, from
  the committed one, which is the term the user has submitted. \<open>typed_after t es\<close> is the
  typed term after the events \<open>es\<close> on a page whose typed term was \<open>t\<close>.
\<close>

fun typed_after :: "string \<Rightarrow> event list \<Rightarrow> string" where
  "typed_after t [] = t"
| "typed_after t (Input v # es) = typed_after v es"
| "typed_after t (_ # es) = typed_after t es"

text \<open>
  \<open>committed_after c t es\<close> is the committed term after the events \<open>es\<close> on a page with the
  committed term \<open>c\<close> and the typed term \<open>t\<close>: a submission commits the typed term, except
  that an empty term cannot be submitted; no other event commits anything.
\<close>

fun committed_after :: "string \<Rightarrow> string \<Rightarrow> event list \<Rightarrow> string" where
  "committed_after c t [] = c"
| "committed_after c t (Input v # es) = committed_after c v es"
| "committed_after c t (Submit # es) = committed_after (if t = [] then c else t) t es"
| "committed_after c t (e # es) = committed_after c t es"

text \<open>
  The most recently committed search term of a session: the page starts with its initial
  term both typed and committed (the first fetch is for it).
\<close>

definition most_recently_committed :: "local_storage \<Rightarrow> event list \<Rightarrow> string" where
  "most_recently_committed ls es = committed_after (initial_term ls) (initial_term ls) es"

text \<open>
  What every reachable page satisfies: the storage holds the typed search term, the
  browser has taken the contents of the storage, and the collection is an array.
\<close>

definition persisted_inv :: "app \<Rightarrow> bool" where
  "persisted_inv w \<longleftrightarrow>
     localStorage w ''search'' = Some (searchTerm w)
     \<and> quota w (localStorage w)
     \<and> (case data (stories w) of Array xs \<Rightarrow> True | _ \<Rightarrow> False)"

section \<open>Example values\<close>

text \<open>
  The stories of the specification's example, \<open>{id:1,title:"A"}\<close> and \<open>{id:2,title:"B"}\<close>,
  a second story that shares the identifier of the first, and states to try them on.
\<close>

definition story_A :: story where
  "story_A = \<lparr>objectID = ''1'', title = ''A'', url = [], author = [], num_comments = 0, points = 0\<rparr>"

definition story_B :: story where
  "story_B = \<lparr>objectID = ''2'', title = ''B'', url = [], author = [], num_comments = 0, points = 0\<rparr>"

definition story_A2 :: story where
  "story_A2 = \<lparr>objectID = ''1'', title = ''A again'', url = [], author = [], num_comments = 3,
     points = 7\<rparr>"

definition state_AB :: state where
  "state_AB = \<lparr>data = Array [story_A, story_B], isLoading = False, isError = False\<rparr>"

definition state_ABA :: state where
  "state_ABA = \<lparr>data = Array [story_A, story_B, story_A2], isLoading = False, isError = True\<rparr>"

text \<open>
  Two browsers: one that takes every write, one that takes at most five characters under
  the key \<open>search\<close>.
\<close>

definition unlimited :: "local_storage \<Rightarrow> bool" where
  "unlimited ls = True"

definition five_chars :: "local_storage \<Rightarrow> bool" where
  "five_chars ls = (case ls ''search'' of None \<Rightarrow> True | Some v \<Rightarrow> length v \<le> 5)"

text \<open>
  A page on which \<open>Redux\<close> has been typed but not submitted, with results on the screen;
  and the page that a load over an empty storage followed by typing \<open>Redux\<close> gives.
\<close>

definition app_redux :: app where
  "app_redux = \<lparr>localStorage = [''search'' \<mapsto> ''Redux''], quota = unlimited,
     searchTerm = ''Redux'', url = API_ENDPOINT @ ''React'', stories = state_AB, pending = 0\<rparr>"


section \<open>Auxiliary facts\<close>

lemma filter_stories_Object:
  "filter_stories (Object item) xs = Inr (filter (\<lambda>s. objectID item \<noteq> objectID s) xs)"
  by (induction xs) auto

lemma remove_story_Array:
  "data S = Array xs \<Longrightarrow>
   storiesReducer S \<lparr>type = ''REMOVE_STORY'', payload = Object item\<rparr>
     = Inr (S\<lparr>data := Array (filter (\<lambda>s. objectID item \<noteq> objectID s) xs)\<rparr>)"
  by (simp add: storiesReducer_def filter_stories_Object)

text \<open>
  The collection has to be an array: on any other value of \<open>state.data\<close> the call of
  \<open>filter\<close> throws, and so does the reducer. No dispatch of \<open>App\<close> reaches such a state
  (\<open>step_inv\<close> below).
\<close>

lemma remove_story_without_array:
  "data S = Undefined \<or> data S = Object s \<Longrightarrow>
   storiesReducer S \<lparr>type = ''REMOVE_STORY'', payload = p\<rparr> = Inl TypeError"
  by (auto simp: storiesReducer_def)

lemma filter_distinct_ids_remove1:
  "distinct (map objectID xs) \<Longrightarrow> s \<in> set xs \<Longrightarrow>
   filter (\<lambda>t. objectID t \<noteq> objectID s) xs = remove1 s xs"
proof (induction xs)
  case Nil
  then show ?case by simp
next
  case (Cons x xs)
  from Cons.prems have fresh: "objectID x \<notin> objectID ` set xs"
    and dist: "distinct (map objectID xs)" by simp_all
  show ?case
  proof (cases "s = x")
    case True
    from fresh have "\<forall>t \<in> set xs. objectID t \<noteq> objectID x" by (metis imageI)
    then have "filter (\<lambda>t. objectID t \<noteq> objectID x) xs = xs"
      by (simp add: filter_id_conv)
    with True show ?thesis by simp
  next
    case False
    with Cons.prems have mem: "s \<in> set xs" by simp
    then have "objectID s \<in> objectID ` set xs" by simp
    with fresh have "objectID x \<noteq> objectID s" by metis
    with Cons.IH [OF dist mem] False show ?thesis by simp
  qed
qed

lemma dispatch_fetch_init:
  "dispatchStories w \<lparr>type = ''STORIES_FETCH_INIT'', payload = p\<rparr>
     = Inr (w\<lparr>stories := (stories w)\<lparr>isLoading := True, isError := False\<rparr>\<rparr>)"
  by (simp add: dispatchStories_def storiesReducer_def)

lemma dispatch_fetch_success:
  "dispatchStories w \<lparr>type = ''STORIES_FETCH_SUCCESS'', payload = p\<rparr>
     = Inr (w\<lparr>stories := (stories w)\<lparr>isLoading := False, isError := False, data := p\<rparr>\<rparr>)"
  by (simp add: dispatchStories_def storiesReducer_def)

lemma dispatch_fetch_failure:
  "dispatchStories w \<lparr>type = ''STORIES_FETCH_FAILURE'', payload = p\<rparr>
     = Inr (w\<lparr>stories := (stories w)\<lparr>isLoading := False, isError := True\<rparr>\<rparr>)"
  by (simp add: dispatchStories_def storiesReducer_def)

lemma dispatch_remove_story:
  "data (stories w) = Array xs \<Longrightarrow>
   dispatchStories w \<lparr>type = ''REMOVE_STORY'', payload = Object item\<rparr>
     = Inr (w\<lparr>stories := (stories w)
              \<lparr>data := Array (filter (\<lambda>s. objectID item \<noteq> objectID s) xs)\<rparr>\<rparr>)"
  by (simp add: dispatchStories_def remove_story_Array)

lemma handleFetchStories_eq:
  "handleFetchStories w
     = Inr (w\<lparr>stories := (stories w)\<lparr>isLoading := True, isError := False\<rparr>,
              pending := Suc (pending w)\<rparr>)"
  by (simp add: handleFetchStories_def dispatch_fetch_init)

lemma initial_term_eq: "initial_term ls = js_or (ls ''search'') ''React''"
  by (simp add: initial_term_def useSemiPersistentState_initial_def getItem_def)

lemma initial_term_nonempty: "initial_term ls \<noteq> []"
  by (simp add: initial_term_eq js_or_def split: option.splits)

lemma initial_term_stored:
  "ls ''search'' = Some t \<Longrightarrow> t \<noteq> [] \<Longrightarrow> initial_term ls = t"
  by (simp add: initial_term_eq js_or_def)

lemma mount_eq:
  "mount q ls =
     (if q (ls(''search'' \<mapsto> initial_term ls)) then
        Inr \<lparr>localStorage = ls(''search'' \<mapsto> initial_term ls),
             quota = q,
             searchTerm = initial_term ls,
             url = API_ENDPOINT @ initial_term ls,
             stories = \<lparr>data = Array [], isLoading = True, isError = False\<rparr>,
             pending = Suc 0\<rparr>
      else Inl QuotaExceededError)"
  by (simp add: mount_def Let_def handleFetchStories_eq useSemiPersistentState_effect_def
      setItem_def)

lemma mount_inv:
  assumes "mount q ls = Inr w"
  shows "persisted_inv w \<and> quota w = q \<and> searchTerm w = initial_term ls
         \<and> url w = API_ENDPOINT @ initial_term ls"
  using assms by (auto simp: mount_eq persisted_inv_def split: if_splits)

text \<open>
  A page loads when the browser takes the first write. Over a storage that a page of the
  same browser has left behind, with a non-empty term in it, the write changes nothing
  and the page loads with that term.
\<close>

lemma mount_over_persisted:
  assumes "ls ''search'' = Some t" and "t \<noteq> []" and "q ls"
  shows "\<exists>w. mount q ls = Inr w \<and> searchTerm w = t \<and> url w = API_ENDPOINT @ t
           \<and> localStorage w = ls"
proof -
  have t: "initial_term ls = t" using assms(1,2) by (rule initial_term_stored)
  have same: "ls(''search'' \<mapsto> t) = ls" using assms(1) by (rule map_upd_triv)
  show ?thesis using assms(3) by (simp add: mount_eq t same)
qed

text \<open>
  Every event keeps the invariant and the browser's policy; the typed term and the query
  URL move as \<open>typed_after\<close> and \<open>committed_after\<close> say.
\<close>

lemma step_inv:
  assumes "persisted_inv w" and "step w e = Inr w'"
  shows "persisted_inv w' \<and> quota w' = quota w
         \<and> searchTerm w' = typed_after (searchTerm w) [e]
         \<and> (url w = API_ENDPOINT @ c
              \<longrightarrow> url w' = API_ENDPOINT @ committed_after c (searchTerm w) [e])"
proof (cases e)
  case (Input v)
  with assms show ?thesis
    by (auto simp: handleSearchInput_def persisted_inv_def useSemiPersistentState_effect_def
        setItem_def split: if_splits)
next
  case Submit
  with assms show ?thesis
    by (auto simp: handleSearchSubmit_def Let_def handleFetchStories_eq persisted_inv_def
        split: if_splits)
next
  case (Dismiss item)
  from assms(1) obtain xs where xs: "data (stories w) = Array xs"
    by (cases "data (stories w)") (simp_all add: persisted_inv_def)
  from assms Dismiss show ?thesis
    by (auto simp: handleRemoveStory_def dispatch_remove_story [OF xs] persisted_inv_def
        split: if_splits)
next
  case (Resolved hits)
  with assms show ?thesis
    by (auto simp: dispatch_fetch_success persisted_inv_def split: if_splits)
next
  case Rejected
  with assms show ?thesis
    by (auto simp: dispatch_fetch_failure persisted_inv_def split: if_splits)
qed

text \<open>
  Only a refused write stops a reachable page: every event other than typing returns,
  and typing returns when the browser takes the new contents.
\<close>

lemma step_returns:
  assumes "persisted_inv w"
    and "\<And>v. e = Input v \<Longrightarrow> quota w ((localStorage w)(''search'' \<mapsto> v))"
  shows "\<exists>w'. step w e = Inr w'"
proof (cases e)
  case (Input v)
  with assms(2) [of v] show ?thesis
    by (simp add: handleSearchInput_def useSemiPersistentState_effect_def setItem_def)
next
  case Submit
  then show ?thesis
    by (simp add: handleSearchSubmit_def Let_def handleFetchStories_eq)
next
  case (Dismiss item)
  from assms(1) obtain xs where xs: "data (stories w) = Array xs"
    by (cases "data (stories w)") (simp_all add: persisted_inv_def)
  from Dismiss show ?thesis
    by (simp add: handleRemoveStory_def dispatch_remove_story [OF xs])
next
  case (Resolved hits)
  then show ?thesis by (simp add: dispatch_fetch_success)
next
  case Rejected
  then show ?thesis by (simp add: dispatch_fetch_failure)
qed

lemma typed_after_append:
  "typed_after t (es @ fs) = typed_after (typed_after t es) fs"
  by (induction t es rule: typed_after.induct) simp_all

lemma committed_after_append:
  "committed_after c t (es @ fs)
     = committed_after (committed_after c t es) (typed_after t es) fs"
  by (induction c t es rule: committed_after.induct) simp_all



lemma run_inv:
  assumes "persisted_inv w" and "url w = API_ENDPOINT @ c" and "run w es = Inr w'"
  shows "persisted_inv w' \<and> quota w' = quota w
         \<and> searchTerm w' = typed_after (searchTerm w) es
         \<and> url w' = API_ENDPOINT @ committed_after c (searchTerm w) es"
  using assms
proof (induction es arbitrary: w c)
  case Nil
  then show ?case by simp
next
  case (Cons e es)
  from Cons.prems(3) obtain w1 where s: "step w e = Inr w1" and r: "run w1 es = Inr w'"
    by (auto split: sum.splits)
  from step_inv [OF Cons.prems(1) s, of c] Cons.prems(2)
  have i: "persisted_inv w1" and q: "quota w1 = quota w"
    and t: "searchTerm w1 = typed_after (searchTerm w) [e]"
    and u: "url w1 = API_ENDPOINT @ committed_after c (searchTerm w) [e]"
    by simp_all
  from Cons.IH [OF i u r]
  have "persisted_inv w'" and "quota w' = quota w1"
    and "searchTerm w' = typed_after (searchTerm w1) es"
    and "url w' = API_ENDPOINT
           @ committed_after (committed_after c (searchTerm w) [e]) (searchTerm w1) es"
    by simp_all
  moreover have "typed_after (searchTerm w) (e # es) = typed_after (searchTerm w1) es"
    using typed_after_append [of "searchTerm w" "[e]" es] t by simp
  moreover have "committed_after c (searchTerm w) (e # es)
      = committed_after (committed_after c (searchTerm w) [e]) (searchTerm w1) es"
    using committed_after_append [of c "searchTerm w" "[e]" es] t by simp
  ultimately show ?case using q by simp
qed

lemma session_inv:
  assumes "session q ls es = Inr w"
  shows "persisted_inv w \<and> quota w = q
         \<and> searchTerm w = typed_after (initial_term ls) es
         \<and> url w = API_ENDPOINT @ most_recently_committed ls es"
proof -
  from assms obtain w0 where m: "mount q ls = Inr w0" and r: "run w0 es = Inr w"
    by (auto simp: session_def then_do_def split: sum.splits)
  from mount_inv [OF m] have i: "persisted_inv w0" and q: "quota w0 = q"
    and t: "searchTerm w0 = initial_term ls"
    and u: "url w0 = API_ENDPOINT @ initial_term ls" by simp_all
  from run_inv [OF i u r] q t show ?thesis
    by (simp add: most_recently_committed_def)
qed

text \<open>In a browser that takes every write, no session ends in an error.\<close>

lemma run_unlimited:
  "persisted_inv w \<Longrightarrow> quota w = unlimited \<Longrightarrow> \<exists>w'. run w es = Inr w'"
proof (induction es arbitrary: w)
  case Nil
  then show ?case by simp
next
  case (Cons e es)
  from step_returns [OF Cons.prems(1), of e] Cons.prems(2)
  obtain w1 where s: "step w e = Inr w1" by (auto simp: unlimited_def)
  from step_inv [OF Cons.prems(1) s] Cons.prems(2)
  have "persisted_inv w1" and "quota w1 = unlimited" by simp_all
  from Cons.IH [OF this] s show ?case by simp
qed

lemma session_unlimited: "\<exists>w. session unlimited ls es = Inr w"
proof -
  have "\<exists>w0. mount unlimited ls = Inr w0" by (simp add: mount_eq unlimited_def)
  then obtain w0 where m: "mount unlimited ls = Inr w0" ..
  from mount_inv [OF m] run_unlimited [of w0 es] obtain w where "run w0 es = Inr w" by blast
  with m show ?thesis by (simp add: session_def then_do_def)
qed

text \<open>
  In a browser that takes five characters, typing a sixth stops the page, and the storage
  is not reached by the event that follows.
\<close>

lemma full_storage_stops_the_page:
  "session five_chars Map.empty [Input ''Reduxx'', Submit] = Inl QuotaExceededError"
  by (simp add: session_def then_do_def mount_eq initial_term_eq js_or_def five_chars_def
      handleSearchInput_def useSemiPersistentState_effect_def setItem_def)

text \<open>
  Between two commits the storage follows the typed term, not the committed one: after
  typing \<open>Redux\<close> into a page loaded over an empty storage, without submitting, the storage
  holds \<open>Redux\<close> while the query URL is still the one for \<open>React\<close>.
\<close>

lemma typed_term_is_persisted_before_submit:
  "map_sum id persisted_term (session unlimited Map.empty [Input ''Redux'']) = Inr (Some ''Redux'')
   \<and> map_sum id url (session unlimited Map.empty [Input ''Redux'']) = Inr (API_ENDPOINT @ ''React'')"
  by (simp add: session_def then_do_def mount_eq initial_term_eq js_or_def unlimited_def
      handleSearchInput_def persisted_term_def getItem_def setItem_def
      useSemiPersistentState_effect_def)

text \<open>
  An emptied input field is typed, never committed: the storage then holds the empty
  string, and a fresh load starts with \<open>React\<close>.
\<close>

lemma emptied_input_reloads_default:
  "map_sum id persisted_term (session unlimited Map.empty [Input []]) = Inr (Some [])
   \<and> map_sum id searchTerm (then_do (session unlimited Map.empty [Input []]) fresh_load)
       = Inr ''React''"
  by (simp add: session_def then_do_def mount_eq initial_term_eq js_or_def unlimited_def
      handleSearchInput_def fresh_load_def persisted_term_def getItem_def setItem_def
      useSemiPersistentState_effect_def)

text \<open>
  The startup is a commit of its own: a page that has loaded holds its initial term as
  the typed term, in the query URL and in the storage, and a fresh load starts with it.
\<close>

lemma persisted_term_at_startup:
  assumes "session q ls [] = Inr w"
  shows "url w = API_ENDPOINT @ most_recently_committed ls []
         \<and> persisted_term w = Some (most_recently_committed ls [])
         \<and> (\<exists>w1. fresh_load w = Inr w1 \<and> Some (searchTerm w1) = persisted_term w)"
proof -
  from session_inv [OF assms] have i: "persisted_inv w"
    and t: "searchTerm w = initial_term ls"
    and u: "url w = API_ENDPOINT @ most_recently_committed ls []" by simp_all
  have c: "most_recently_committed ls [] = searchTerm w"
    using t by (simp add: most_recently_committed_def)
  from i have p: "localStorage w ''search'' = Some (searchTerm w)"
    and f: "quota w (localStorage w)" by (simp_all add: persisted_inv_def)
  have n: "searchTerm w \<noteq> []" using t initial_term_nonempty by simp
  from mount_over_persisted [of "localStorage w" "searchTerm w" "quota w", OF p n f]
  obtain w1 where
    "mount (quota w) (localStorage w) = Inr w1" and "searchTerm w1 = searchTerm w" by blast
  then show ?thesis using u c p by (simp add: fresh_load_def persisted_term_def getItem_def)
qed

section \<open>The stories state machine\<close>

text \<open>
  C1: from every state and with every payload, \<open>STORIES_FETCH_SUCCESS\<close> returns a state
  whose collection is the payload itself (same elements, same order, nothing of the old
  collection kept), with the loading flag and the error flag both false.
\<close>

theorem fetch_success_replaces:
  "\<exists>S'. storiesReducer S \<lparr>type = ''STORIES_FETCH_SUCCESS'', payload = P\<rparr> = Inr S'
     \<and> data S' = P \<and> isLoading S' = False \<and> isError S' = False"
  by (simp add: storiesReducer_def)

text \<open>
  C2: from every state, \<open>STORIES_FETCH_FAILURE\<close> returns a state with the loading flag
  false, the error flag true and the collection of the state it started from.
\<close>

theorem fetch_failure_keeps_collection:
  "\<exists>S'. storiesReducer S \<lparr>type = ''STORIES_FETCH_FAILURE'', payload = P\<rparr> = Inr S'
     \<and> isLoading S' = False \<and> isError S' = True \<and> data S' = data S"
  by (simp add: storiesReducer_def)

text \<open>
  C3: from a state whose collection is \<open>xs\<close>, \<open>REMOVE_STORY\<close> with an item of identifier
  \<open>X\<close> returns a state whose collection is \<open>xs\<close> without the stories of identifier \<open>X\<close>.
  When no story of \<open>xs\<close> has that identifier the collection is the old one; when the
  identifiers in \<open>xs\<close> are pairwise different, it is \<open>xs\<close> with the one story of
  identifier \<open>X\<close> taken out. The loading flag and the error flag keep their values.
\<close>

theorem remove_story_by_identifier:
  assumes "data S = Array xs" and "objectID item = X"
  shows "\<exists>S'. storiesReducer S \<lparr>type = ''REMOVE_STORY'', payload = Object item\<rparr> = Inr S'
     \<and> data S' = Array (filter (\<lambda>s. objectID s \<noteq> X) xs)
     \<and> (X \<notin> objectID ` set xs \<longrightarrow> data S' = data S)
     \<and> (distinct (map objectID xs) \<longrightarrow>
          (\<forall>s \<in> set xs. objectID s = X \<longrightarrow> data S' = Array (remove1 s xs)))
     \<and> isLoading S' = isLoading S \<and> isError S' = isError S"
proof -
  let ?S' = "S\<lparr>data := Array (filter (\<lambda>s. objectID item \<noteq> objectID s) xs)\<rparr>"
  have eq: "(\<lambda>s. objectID item \<noteq> objectID s) = (\<lambda>s. objectID s \<noteq> X)"
    using assms(2) by auto
  have red: "storiesReducer S \<lparr>type = ''REMOVE_STORY'', payload = Object item\<rparr> = Inr ?S'"
    using assms(1) by (rule remove_story_Array)
  have d: "data ?S' = Array (filter (\<lambda>s. objectID s \<noteq> X) xs)"
    by (simp add: eq)
  have absent: "X \<notin> objectID ` set xs \<longrightarrow> data ?S' = data S"
    using assms(1) by (auto simp: eq filter_id_conv)
  have one: "distinct (map objectID xs) \<longrightarrow>
      (\<forall>s \<in> set xs. objectID s = X \<longrightarrow> data ?S' = Array (remove1 s xs))"
  proof (intro impI ballI)
    fix s
    assume "distinct (map objectID xs)" and "s \<in> set xs" and "objectID s = X"
    then have "filter (\<lambda>t. objectID t \<noteq> X) xs = remove1 s xs"
      using filter_distinct_ids_remove1 [of xs s] by simp
    then show "data ?S' = Array (remove1 s xs)" by (simp add: eq)
  qed
  show ?thesis
    using red d absent one by (intro exI [of _ ?S']) simp
qed

text \<open>
  The example of the specification: removing the story of identifier 1 from
  \<open>[{id:1,title:"A"},{id:2,title:"B"}]\<close> leaves \<open>[{id:2,title:"B"}]\<close>.
\<close>

theorem remove_story_by_identifier_witness:
  "data state_AB = Array [story_A, story_B] \<and> objectID story_A = ''1''
   \<and> distinct (map objectID [story_A, story_B]) \<and> story_A \<in> set [story_A, story_B]
   \<and> (\<exists>S'. storiesReducer state_AB \<lparr>type = ''REMOVE_STORY'', payload = Object story_A\<rparr> = Inr S'
         \<and> data S' = Array [story_B]
         \<and> isLoading S' = False \<and> isError S' = False)"
proof -
  have c: "data state_AB = Array [story_A, story_B]" and i: "objectID story_A = ''1''"
    by (simp_all add: state_AB_def story_A_def)
  from remove_story_by_identifier [OF c i] obtain S' where
    r: "storiesReducer state_AB \<lparr>type = ''REMOVE_STORY'', payload = Object story_A\<rparr> = Inr S'"
    and d: "data S' = Array (filter (\<lambda>s. objectID s \<noteq> ''1'') [story_A, story_B])"
    and l: "isLoading S' = isLoading state_AB" and e: "isError S' = isError state_AB"
    by blast
  from d have "data S' = Array [story_B]" by (simp add: story_A_def story_B_def)
  moreover from l e have "isLoading S' = False" and "isError S' = False"
    by (simp_all add: state_AB_def)
  moreover have "distinct (map objectID [story_A, story_B])"
    by (simp add: story_A_def story_B_def)
  ultimately show ?thesis using c i r by simp
qed

text \<open>
  C6: from every state, \<open>STORIES_FETCH_INIT\<close> returns a state with the loading flag true,
  the error flag false and the collection of the state it started from.
\<close>

theorem fetch_init_keeps_collection:
  "\<exists>S'. storiesReducer S \<lparr>type = ''STORIES_FETCH_INIT'', payload = P\<rparr> = Inr S'
     \<and> isLoading S' = True \<and> isError S' = False \<and> data S' = data S"
  by (simp add: storiesReducer_def)

text \<open>
  C7: for every state and every action whose type is none of the four that the reducer
  knows, the reducer throws its \<open>Error\<close>; it returns no state.
\<close>

theorem unrecognized_action_throws:
  assumes "type a \<noteq> ''STORIES_FETCH_INIT''" and "type a \<noteq> ''STORIES_FETCH_SUCCESS''"
    and "type a \<noteq> ''STORIES_FETCH_FAILURE''" and "type a \<noteq> ''REMOVE_STORY''"
  shows "storiesReducer S a = Inl Error"
  using assms by (simp add: storiesReducer_def)

theorem unrecognized_action_throws_witness:
  "storiesReducer state_AB \<lparr>type = ''STORIES_RESET'', payload = Undefined\<rparr> = Inl Error"
  using unrecognized_action_throws [of "\<lparr>type = ''STORIES_RESET'', payload = Undefined\<rparr>" state_AB]
  by simp

text \<open>
  C10: from a state whose collection is \<open>xs\<close>, with any number of stories sharing an
  identifier, \<open>REMOVE_STORY\<close> returns a collection \<open>ys\<close> in which no story has the
  identifier of the removed item; \<open>ys\<close> is a subsequence of \<open>xs\<close>, and it consists of all
  the stories of \<open>xs\<close> with another identifier, in their old order.
\<close>

theorem remove_story_all_duplicates:
  assumes "data S = Array xs"
  shows "\<exists>S' ys. storiesReducer S \<lparr>type = ''REMOVE_STORY'', payload = Object item\<rparr> = Inr S'
     \<and> data S' = Array ys
     \<and> (\<forall>s \<in> set ys. objectID s \<noteq> objectID item)
     \<and> subseq ys xs
     \<and> filter (\<lambda>s. objectID s \<noteq> objectID item) xs = ys"
proof -
  let ?ys = "filter (\<lambda>s. objectID item \<noteq> objectID s) xs"
  have "storiesReducer S \<lparr>type = ''REMOVE_STORY'', payload = Object item\<rparr>
          = Inr (S\<lparr>data := Array ?ys\<rparr>)"
    using assms by (rule remove_story_Array)
  moreover have "\<forall>s \<in> set ?ys. objectID s \<noteq> objectID item" by auto
  moreover have "subseq ?ys xs" by simp
  moreover have "filter (\<lambda>s. objectID s \<noteq> objectID item) xs = ?ys"
    by (rule filter_cong) auto
  ultimately show ?thesis
    by (intro exI [of _ "S\<lparr>data := Array ?ys\<rparr>"] exI [of _ ?ys]) simp
qed

theorem remove_story_all_duplicates_witness:
  "data state_ABA = Array [story_A, story_B, story_A2]
   \<and> objectID story_A = objectID story_A2 \<and> story_A \<noteq> story_A2
   \<and> (\<exists>S'. storiesReducer state_ABA \<lparr>type = ''REMOVE_STORY'', payload = Object story_A\<rparr> = Inr S'
         \<and> data S' = Array [story_B])"
proof -
  have c: "data state_ABA = Array [story_A, story_B, story_A2]"
    by (simp add: state_ABA_def)
  from remove_story_all_duplicates [OF c, of story_A] obtain S' ys where
    r: "storiesReducer state_ABA \<lparr>type = ''REMOVE_STORY'', payload = Object story_A\<rparr> = Inr S'"
    and d: "data S' = Array ys"
    and f: "filter (\<lambda>s. objectID s \<noteq> objectID story_A) [story_A, story_B, story_A2] = ys"
    by blast
  from f have "ys = [story_B]" by (simp add: story_A_def story_B_def story_A2_def)
  with d have "data S' = Array [story_B]" by simp
  moreover have "objectID story_A = objectID story_A2" and "story_A \<noteq> story_A2"
    by (simp_all add: story_A_def story_A2_def)
  ultimately show ?thesis using c r by simp
qed

section \<open>The search form\<close>

text \<open>
  C4: on a page whose search term \<open>T\<close> is not empty, submitting the form succeeds, and
  the query URL afterwards is the string \<open>https://hn.algolia.com/api/v1/search?query=\<close>
  followed by \<open>T\<close>, character for character.
\<close>

theorem submit_commits_url:
  assumes "searchTerm w = T" and "T \<noteq> []"
  shows "\<exists>w'. step w Submit = Inr w' \<and> handleSearchSubmit w = Inr w'
           \<and> url w' = ''https://hn.algolia.com/api/v1/search?query='' @ T"
  using assms
  by (simp add: handleSearchSubmit_def Let_def handleFetchStories_eq API_ENDPOINT_def)

theorem submit_commits_url_witness:
  "searchTerm app_redux = ''Redux'' \<and> ''Redux'' \<noteq> []
   \<and> (\<exists>w'. step app_redux Submit = Inr w'
         \<and> url w' = ''https://hn.algolia.com/api/v1/search?query=Redux'')"
proof -
  have t: "searchTerm app_redux = ''Redux''" and n: "''Redux'' \<noteq> []"
    by (simp_all add: app_redux_def)
  from submit_commits_url [OF t n] t show ?thesis by auto
qed

section \<open>The persisted search term\<close>



text \<open>
  C8: when the storage has no value under the key, the initial value of the persistent
  value holder is the default it was given.
\<close>

theorem absent_key_yields_default:
  "getItem ls key = None \<Longrightarrow> useSemiPersistentState_initial ls key initialValue = initialValue"
  by (simp add: useSemiPersistentState_initial_def js_or_def)

theorem absent_key_yields_default_witness:
  "getItem Map.empty ''search'' = None
   \<and> useSemiPersistentState_initial Map.empty ''search'' ''React'' = ''React''"
  using absent_key_yields_default [of Map.empty "''search''" "''React''"]
  by (simp add: getItem_def)

text \<open>
  C9: when the value stored under the key is the empty string, the initial value of the
  persistent value holder is the default it was given, the same as over a storage without
  the key.
\<close>

theorem empty_string_is_treated_as_absent:
  "getItem ls key = Some [] \<Longrightarrow>
   useSemiPersistentState_initial ls key initialValue = initialValue
   \<and> useSemiPersistentState_initial ls key initialValue
       = useSemiPersistentState_initial (ls(key := None)) key initialValue"
  by (simp add: useSemiPersistentState_initial_def js_or_def getItem_def)

theorem empty_string_is_treated_as_absent_witness:
  "getItem [''search'' \<mapsto> []] ''search'' = Some []
   \<and> useSemiPersistentState_initial [''search'' \<mapsto> []] ''search'' ''React'' = ''React''
   \<and> useSemiPersistentState_initial [''search'' \<mapsto> []] ''search'' ''React''
       = useSemiPersistentState_initial Map.empty ''search'' ''React''"
proof -
  have stored: "getItem [''search'' \<mapsto> []] ''search'' = Some []"
    by (simp add: getItem_def)
  from empty_string_is_treated_as_absent [OF stored, of "''React''"] stored
  show ?thesis by auto
qed

end
